theory Spec2Isabelle
  imports Complex_Main
begin

section \<open>Electron configuration builder (src/electron\_config.js)\<close>

text \<open>
  JavaScript numbers are modelled as mathematical integers (\<open>int\<close>) in this part: every
  number the builder handles is an integer far below \<open>2^53\<close>, where double arithmetic on
  integers is exact. Objects become records; the field names carry a prefix because a record
  field is a global constant in HOL.
\<close>

record orbital =
  o_n :: int
  o_l :: string
  o_capacity :: int

text \<open>A configuration entry is \<open>{ ...orbital, electrons }\<close>.\<close>

record entry =
  e_n :: int
  e_l :: string
  e_capacity :: int
  e_electrons :: int

definition mkOrbital :: "int \<Rightarrow> string \<Rightarrow> int \<Rightarrow> orbital" where
  "mkOrbital n l c = \<lparr>o_n = n, o_l = l, o_capacity = c\<rparr>"

definition ORBITAL_ORDER :: "orbital list" where
  "ORBITAL_ORDER =
    [mkOrbital 1 ''s'' 2,
     mkOrbital 2 ''s'' 2,
     mkOrbital 2 ''p'' 6,
     mkOrbital 3 ''s'' 2,
     mkOrbital 3 ''p'' 6,
     mkOrbital 4 ''s'' 2,
     mkOrbital 3 ''d'' 10,
     mkOrbital 4 ''p'' 6,
     mkOrbital 5 ''s'' 2,
     mkOrbital 4 ''d'' 10,
     mkOrbital 5 ''p'' 6,
     mkOrbital 6 ''s'' 2,
     mkOrbital 4 ''f'' 14,
     mkOrbital 5 ''d'' 10,
     mkOrbital 6 ''p'' 6,
     mkOrbital 7 ''s'' 2,
     mkOrbital 5 ''f'' 14,
     mkOrbital 6 ''d'' 10,
     mkOrbital 7 ''p'' 6]"

subsection \<open>Template literals: decimal rendering of an integer\<close>

definition digitChar :: "nat \<Rightarrow> char" where
  "digitChar d = ''0123456789'' ! d"

function showNat :: "nat \<Rightarrow> string" where
  "showNat k = (if k < 10 then [digitChar k] else showNat (k div 10) @ [digitChar (k mod 10)])"
  by pat_completeness auto
termination
  by (relation "measure id") auto

declare showNat.simps [simp del]

text \<open>
  \<open>`${v}`\<close> for an integer number \<open>v\<close> (below \<open>10^21\<close> in magnitude, where JavaScript
  prints plain decimal digits).
\<close>

definition showInt :: "int \<Rightarrow> string" where
  "showInt v = (if v < 0 then CHR ''-'' # showNat (nat (- v)) else showNat (nat v))"

text \<open>The key \<open>`${n}${l}`\<close> of \<open>ORDER_INDEX\<close>.\<close>

definition orderKey :: "int \<Rightarrow> string \<Rightarrow> string" where
  "orderKey n l = showInt n @ l"

text \<open>
  \<open>new Map(ORBITAL_ORDER.map((o, idx) => [key, idx]))\<close>: the entries are set one after the
  other, a later entry overwriting an earlier one with the same key.
\<close>

fun mapOfEntries :: "(string \<times> nat) list \<Rightarrow> (string \<rightharpoonup> nat) \<Rightarrow> (string \<rightharpoonup> nat)" where
  "mapOfEntries [] m = m"
| "mapOfEntries ((k, v) # kvs) m = mapOfEntries kvs (m(k \<mapsto> v))"

definition ORDER_INDEX :: "string \<rightharpoonup> nat" where
  "ORDER_INDEX =
     mapOfEntries (zip (map (\<lambda>orb. orderKey (o_n orb) (o_l orb)) ORBITAL_ORDER)
                       [0 ..< length ORBITAL_ORDER]) Map.empty"

subsection \<open>The exception table\<close>

record clause =
  c_n :: int
  c_l :: string
  c_count :: int

text \<open>A rule is \<open>{ from, to }\<close>; the code guards each of the two with \<open>if (from)\<close>, \<open>if (to)\<close>.\<close>

record rule =
  r_from :: "clause option"
  r_to :: "clause option"

definition move :: "int \<Rightarrow> string \<Rightarrow> int \<Rightarrow> int \<Rightarrow> string \<Rightarrow> int \<Rightarrow> rule" where
  "move fromN fromL fromCount toN toL toCount =
     \<lparr>r_from = Some \<lparr>c_n = fromN, c_l = fromL, c_count = fromCount\<rparr>,
      r_to = Some \<lparr>c_n = toN, c_l = toL, c_count = toCount\<rparr>\<rparr>"

definition exceptionTable :: "(int \<times> rule list) list" where
  "exceptionTable =
    [(24, [move 4 ''s'' 1 3 ''d'' 1]),
     (29, [move 4 ''s'' 1 3 ''d'' 1]),
     (41, [move 5 ''s'' 1 4 ''d'' 1]),
     (42, [move 5 ''s'' 1 4 ''d'' 1]),
     (44, [move 5 ''s'' 1 4 ''d'' 1]),
     (45, [move 5 ''s'' 1 4 ''d'' 1]),
     (46, [move 5 ''s'' 2 4 ''d'' 2]),
     (47, [move 5 ''s'' 1 4 ''d'' 1]),
     (57, [move 4 ''f'' 1 5 ''d'' 1]),
     (58, [move 4 ''f'' 1 5 ''d'' 1]),
     (64, [move 4 ''f'' 1 5 ''d'' 1]),
     (78, [move 6 ''s'' 1 5 ''d'' 1]),
     (79, [move 6 ''s'' 1 5 ''d'' 1]),
     (89, [move 5 ''f'' 1 6 ''d'' 1]),
     (90, [move 5 ''f'' 2 6 ''d'' 2]),
     (91, [move 5 ''f'' 1 6 ''d'' 1]),
     (92, [move 5 ''f'' 1 6 ''d'' 1]),
     (93, [move 5 ''f'' 1 6 ''d'' 1]),
     (96, [move 5 ''f'' 1 6 ''d'' 1]),
     (103, [move 6 ''d'' 1 7 ''p'' 1])]"

text \<open>\<open>EXCEPTION_ADJUSTMENTS[atomicNumber]\<close>, \<open>None\<close> for \<open>undefined\<close>.\<close>

definition EXCEPTION_ADJUSTMENTS :: "int \<rightharpoonup> rule list" where
  "EXCEPTION_ADJUSTMENTS = map_of exceptionTable"

subsection \<open>ensureEntry\<close>

text \<open>
  \<open>Array.prototype.find\<close> returns a reference to the element, which the callers then
  mutate; the model returns the element's position instead, and the caller updates the
  list there.
\<close>

fun findIndex :: "('a \<Rightarrow> bool) \<Rightarrow> 'a list \<Rightarrow> nat option" where
  "findIndex P [] = None"
| "findIndex P (c # cs) =
     (if P c then Some 0 else map_option Suc (findIndex P cs))"

text \<open>
  The loop \<open>for (i = 0; i < config.length; i += 1)\<close> of \<open>ensureEntry\<close>, started at position
  \<open>i\<close> with the rest of the configuration: the first position whose order index exceeds
  \<open>orderIndex\<close>, or \<open>config.length\<close>.
\<close>

fun insertAtLoop :: "entry list \<Rightarrow> nat \<Rightarrow> nat \<Rightarrow> nat" where
  "insertAtLoop [] orderIndex i = i"
| "insertAtLoop (c # cs) orderIndex i =
     (case ORDER_INDEX (orderKey (e_n c) (e_l c)) of
        None \<Rightarrow> insertAtLoop cs orderIndex (i + 1)
      | Some idx \<Rightarrow> if idx > orderIndex then i else insertAtLoop cs orderIndex (i + 1))"

text \<open>
  The result is the configuration after the call and the position of the returned entry in
  it (\<open>None\<close> for \<open>null\<close>).
\<close>

definition ensureEntry :: "entry list \<Rightarrow> int \<Rightarrow> string \<Rightarrow> entry list \<times> nat option" where
  "ensureEntry config n l =
     (case findIndex (\<lambda>c. e_n c = n \<and> e_l c = l) config of
        Some i \<Rightarrow> (config, Some i)
      | None \<Rightarrow>
         (case List.find (\<lambda>orb. o_n orb = n \<and> o_l orb = l) ORBITAL_ORDER of
            None \<Rightarrow> (config, None)
          | Some template \<Rightarrow>
             (let new = \<lparr>e_n = n, e_l = l, e_capacity = o_capacity template, e_electrons = 0\<rparr>
              in case ORDER_INDEX (orderKey n l) of
                   None \<Rightarrow> (config @ [new], Some (length config))
                 | Some orderIndex \<Rightarrow>
                     (let insertAt = insertAtLoop config orderIndex 0
                      in (take insertAt config @ [new] @ drop insertAt config,
                          Some insertAt)))))"

subsection \<open>applyExceptions\<close>

definition applyFrom :: "clause \<Rightarrow> entry list \<Rightarrow> entry list" where
  "applyFrom from config =
     (case findIndex (\<lambda>c. e_n c = c_n from \<and> e_l c = c_l from) config of
        None \<Rightarrow> config
      | Some i \<Rightarrow>
          config[i := (config ! i)\<lparr>e_electrons :=
                         max 0 (e_electrons (config ! i) - c_count from)\<rparr>])"

definition applyTo :: "clause \<Rightarrow> entry list \<Rightarrow> entry list" where
  "applyTo to config =
     (case ensureEntry config (c_n to) (c_l to) of
        (config', None) \<Rightarrow> config'
      | (config', Some j) \<Rightarrow>
          config'[j := (config' ! j)\<lparr>e_electrons :=
                          min (e_capacity (config' ! j))
                              (e_electrons (config' ! j) + c_count to)\<rparr>])"

text \<open>The body of \<open>ops.forEach\<close>.\<close>

definition applyRule :: "rule \<Rightarrow> entry list \<Rightarrow> entry list" where
  "applyRule r config =
     (let config1 = (case r_from r of None \<Rightarrow> config | Some from \<Rightarrow> applyFrom from config)
      in case r_to r of None \<Rightarrow> config1 | Some to \<Rightarrow> applyTo to config1)"

text \<open>
  The pruning loop \<open>for (i = config.length - 1; i >= 0; i -= 1)\<close>; \<open>pruneLoop k config\<close> is
  the loop with \<open>k\<close> positions left to visit, so the next position is \<open>k - 1\<close>.
  \<open>config.splice(i, 1)\<close> removes position \<open>i\<close>.
\<close>

fun pruneLoop :: "nat \<Rightarrow> entry list \<Rightarrow> entry list" where
  "pruneLoop 0 config = config"
| "pruneLoop (Suc i) config =
     pruneLoop i (if e_electrons (config ! i) \<le> 0
                  then take i config @ drop (Suc i) config else config)"

definition applyExceptions :: "entry list \<Rightarrow> int \<Rightarrow> entry list" where
  "applyExceptions config atomicNumber =
     (case EXCEPTION_ADJUSTMENTS atomicNumber of
        None \<Rightarrow> config
      | Some ops \<Rightarrow>
          (let config' = fold applyRule ops config
           in pruneLoop (length config') config'))"

subsection \<open>buildElectronConfiguration\<close>

text \<open>
  The loop \<open>for (const orbital of ORBITAL_ORDER)\<close>: the entries pushed from the orbitals not
  yet visited, with \<open>remaining\<close> electrons left.
\<close>

fun fillLoop :: "orbital list \<Rightarrow> int \<Rightarrow> entry list" where
  "fillLoop [] remaining = []"
| "fillLoop (orbital # rest) remaining =
     (if remaining \<le> 0 then []
      else (let electrons = min (o_capacity orbital) remaining
            in \<lparr>e_n = o_n orbital, e_l = o_l orbital, e_capacity = o_capacity orbital,
                e_electrons = electrons\<rparr> # fillLoop rest (remaining - electrons)))"

definition buildElectronConfiguration :: "int \<Rightarrow> entry list" where
  "buildElectronConfiguration atomicNumber =
     applyExceptions (fillLoop ORBITAL_ORDER atomicNumber) atomicNumber"

subsection \<open>formatElectronConfiguration and computeValenceElectrons\<close>

text \<open>\<open>Array.prototype.join\<close> on strings.\<close>

fun join :: "string \<Rightarrow> string list \<Rightarrow> string" where
  "join sep [] = []"
| "join sep [s] = s"
| "join sep (s # t # ts) = s @ sep @ join sep (t # ts)"

definition formatElectronConfiguration :: "entry list \<Rightarrow> string" where
  "formatElectronConfiguration config =
     join '' '' (map (\<lambda>e. showInt (e_n e) @ e_l e @ showInt (e_electrons e)) config)"

definition computeValenceElectrons :: "entry list \<Rightarrow> int" where
  "computeValenceElectrons config =
     (let maxShell = fold (\<lambda>e maxShell. if e_n e > maxShell then e_n e else maxShell) config 0
      in fold (\<lambda>e sum. sum + e_electrons e) (filter (\<lambda>e. e_n e = maxShell) config) 0)"

text \<open>The total number of electrons of a configuration.\<close>

definition totalElectrons :: "entry list \<Rightarrow> int" where
  "totalElectrons config = sum_list (map e_electrons config)"

definition mkEntry :: "int \<Rightarrow> string \<Rightarrow> int \<Rightarrow> int \<Rightarrow> entry" where
  "mkEntry n l c e = \<lparr>e_n = n, e_l = l, e_capacity = c, e_electrons = e\<rparr>"

text \<open>Auxiliary notions for stating the properties of the builder.\<close>

text \<open>The total capacity of a list of table slots.\<close>

definition capacities :: "orbital list \<Rightarrow> int" where
  "capacities os = sum_list (map o_capacity os)"

text \<open>A table slot filled to its capacity, as the filling loop pushes it.\<close>

definition fullEntry :: "orbital \<Rightarrow> entry" where
  "fullEntry orb = \<lparr>e_n = o_n orb, e_l = o_l orb, e_capacity = o_capacity orb,
                    e_electrons = o_capacity orb\<rparr>"

text \<open>An entry holds at least one electron and no more than its capacity.\<close>

definition occupied :: "entry \<Rightarrow> bool" where
  "occupied e = (0 < e_electrons e \<and> e_electrons e \<le> e_capacity e)"

text \<open>The order index \<open>ORDER_INDEX.get(`${c.n}${c.l}`)\<close> of an entry, \<open>None\<close> for \<open>undefined\<close>.\<close>

definition orderIndexOf :: "entry \<Rightarrow> nat option" where
  "orderIndexOf c = ORDER_INDEX (orderKey (e_n c) (e_l c))"

text \<open>
  A configuration follows the filling order: every entry has an order index, and the indices
  increase strictly along the sequence.
\<close>

definition fillingOrdered :: "entry list \<Rightarrow> bool" where
  "fillingOrdered config =
     (list_all (\<lambda>c. orderIndexOf c \<noteq> None) config \<and>
      sorted_wrt (\<lambda>a b. the (orderIndexOf a) < the (orderIndexOf b)) config)"

text \<open>The test \<open>idx !== undefined && idx > orderIndex\<close> of the insertion loop.\<close>

definition exceedsIndex :: "nat \<Rightarrow> entry \<Rightarrow> bool" where
  "exceedsIndex orderIndex c =
     (case orderIndexOf c of None \<Rightarrow> False | Some idx \<Rightarrow> idx > orderIndex)"

text \<open>The entry \<open>{ n, l, capacity: template.capacity, electrons: 0 }\<close> that \<open>ensureEntry\<close> creates.\<close>

definition newEntry :: "int \<Rightarrow> string \<Rightarrow> orbital \<Rightarrow> entry" where
  "newEntry n l template =
     \<lparr>e_n = n, e_l = l, e_capacity = o_capacity template, e_electrons = 0\<rparr>"

section \<open>Orbital field model (src/orbitals.js)\<close>

text \<open>
  The amplitude is computed in double precision; the model computes it over the real numbers,
  with \<open>Math.sqrt\<close>, \<open>Math.cos\<close>, \<open>Math.sin\<close> and \<open>Math.atan2\<close> as the real functions they
  approximate. Properties proved here are properties of the formulas; rounding is left out.
\<close>

datatype vec3 = Vector3 (vx: real) (vy: real) (vz: real)

text \<open>
  \<open>THREE.Vector3.normalize\<close> of the three.js library divides by \<open>length() || 1\<close>: the zero
  vector stays as it is.
\<close>

definition vlength :: "vec3 \<Rightarrow> real" where
  "vlength v = sqrt (vx v * vx v + vy v * vy v + vz v * vz v)"

definition normalize_vec :: "vec3 \<Rightarrow> vec3" where
  "normalize_vec v =
     (let d = (if vlength v = 0 then 1 else vlength v)
      in Vector3 (vx v / d) (vy v / d) (vz v / d))"

text \<open>
  \<open>Math.atan2(y, x)\<close>: the angle of the point \<open>(x, y)\<close> in \<open>(-\<pi>, \<pi>]\<close>, and 0 at the origin.
\<close>

definition atan2 :: "real \<Rightarrow> real \<Rightarrow> real" where
  "atan2 y x =
     (if 0 < x then arctan (y / x)
      else if x < 0 then (if 0 \<le> y then arctan (y / x) + pi else arctan (y / x) - pi)
      else if 0 < y then pi / 2
      else if y < 0 then - (pi / 2)
      else 0)"

text \<open>
  A node helper is kept by what places it: a plane by its unit normal (\<open>createPlaneNode\<close>
  normalises the normal it is given), a double cone by the cosine it is built from.
\<close>

datatype node = PlaneNode vec3 | DoubleConeNode real

definition createPlaneNode :: "vec3 \<Rightarrow> node" where
  "createPlaneNode normal = PlaneNode (normalize_vec normal)"

definition createDoubleConeNode :: "real \<Rightarrow> node" where
  "createDoubleConeNode cosTheta = DoubleConeNode cosTheta"

definition addPlanes :: "vec3 list \<Rightarrow> node list" where
  "addPlanes normals = map createPlaneNode normals"

definition addCones :: "real list \<Rightarrow> node list" where
  "addCones cosValues = map createDoubleConeNode cosValues"

text \<open>
  \<open>buildNodalGroup(cfg, size)\<close> by \<open>cfg.family\<close> and \<open>cfg.variant\<close>: the children added to
  the group, and \<open>None\<close> for the \<open>null\<close> returned when there is no child.
\<close>

definition nodalChildren :: "string \<Rightarrow> string \<Rightarrow> node list" where
  "nodalChildren family variant =
     (if family = ''s'' then []
      else if family = ''p'' then
        (if variant = ''px'' then addPlanes [Vector3 1 0 0]
         else if variant = ''py'' then addPlanes [Vector3 0 1 0]
         else addPlanes [Vector3 0 0 1])
      else if family = ''d'' then
        (if variant = ''dz2'' then addCones [1 / sqrt 3]
         else if variant = ''dxz'' then addPlanes [Vector3 1 0 0, Vector3 0 0 1]
         else if variant = ''dyz'' then addPlanes [Vector3 0 1 0, Vector3 0 0 1]
         else if variant = ''dxy'' then addPlanes [Vector3 1 0 0, Vector3 0 1 0]
         else addPlanes [normalize_vec (Vector3 1 1 0), normalize_vec (Vector3 1 (- 1) 0)])
      else if family = ''f'' then
        (if variant = ''fz3'' then addPlanes [Vector3 0 1 0] @ addCones [sqrt (3 / 5)]
         else if variant = ''fxz2'' then addPlanes [Vector3 1 0 0] @ addCones [1 / sqrt 5]
         else if variant = ''fyz2'' then addPlanes [Vector3 0 1 0] @ addCones [1 / sqrt 5]
         else if variant = ''fzx2y2'' then
           addPlanes [Vector3 0 0 1, normalize_vec (Vector3 1 1 0), normalize_vec (Vector3 1 (- 1) 0)]
         else if variant = ''fxyz'' then
           addPlanes [Vector3 1 0 0, Vector3 0 1 0, Vector3 0 0 1]
         else if variant = ''fcos3'' then
           addPlanes [Vector3 0 0 1,
                      Vector3 (sin (pi / 3)) 0 (cos (pi / 3)),
                      Vector3 (sin ((2 * pi) / 3)) 0 (cos ((2 * pi) / 3))]
         else if variant = ''fsin3'' then
           addPlanes [Vector3 1 0 0,
                      Vector3 (sin (pi / 3)) 0 (cos (pi / 3)),
                      Vector3 (sin ((2 * pi) / 3)) 0 (cos ((2 * pi) / 3))]
         else addPlanes [Vector3 0 1 0])
      else [])"

definition buildNodalGroup :: "string \<Rightarrow> string \<Rightarrow> node list option" where
  "buildNodalGroup family variant =
     (let children = nodalChildren family variant
      in if children = [] then None else Some children)"

text \<open>The normals of the nodal planes of a group.\<close>

fun planeNormal :: "node \<Rightarrow> vec3 list" where
  "planeNormal (PlaneNode normal) = [normal]"
| "planeNormal (DoubleConeNode cosTheta) = []"

definition planeNormals :: "node list option \<Rightarrow> vec3 list" where
  "planeNormals nodes = (case nodes of None \<Rightarrow> [] | Some children \<Rightarrow> concat (map planeNormal children))"

definition evaluateOrbitalAmplitude :: "string \<Rightarrow> string \<Rightarrow> vec3 \<Rightarrow> real" where
  "evaluateOrbitalAmplitude family variant dir =
     (let x = vx dir; y = vy dir; z = vz dir;
          r = 1;
          cosT = y / r;
          sinT = sqrt (max 0 (1 - cosT * cosT));
          phi = atan2 z x
      in if family = ''s'' then 1
         else if family = ''p'' then
           (if variant = ''px'' then sinT * cos phi
            else if variant = ''py'' then sinT * sin phi
            else cosT)
         else if family = ''d'' then
           (if variant = ''dz2'' then 0.5 * (3 * cosT * cosT - 1)
            else if variant = ''dxz'' then sinT * cosT * cos phi
            else if variant = ''dyz'' then sinT * cosT * sin phi
            else if variant = ''dxy'' then sinT * sinT * sin (2 * phi)
            else sinT * sinT * cos (2 * phi))
         else if family = ''f'' then
           (if variant = ''fz3'' then 0.5 * cosT * (5 * cosT * cosT - 3)
            else if variant = ''fxz2'' then 0.5 * sinT * cos phi * (5 * cosT * cosT - 1)
            else if variant = ''fyz2'' then 0.5 * sinT * sin phi * (5 * cosT * cosT - 1)
            else if variant = ''fzx2y2'' then sinT * sinT * cosT * cos (2 * phi)
            else if variant = ''fxyz'' then sinT * sinT * cosT * sin (2 * phi)
            else if variant = ''fcos3'' then sinT ^ 3 * cos (3 * phi)
            else if variant = ''fsin3'' then sinT ^ 3 * sin (3 * phi)
            else 0.5 * cosT * (5 * cosT * cosT - 3))
         else 1)"

text \<open>\<open>FAMILY_VARIANTS\<close> of src/atom\_spdf.js: the enumerated (family, variant) pairs.\<close>

definition FAMILY_VARIANTS :: "(string \<times> string list) list" where
  "FAMILY_VARIANTS =
     [(''s'', [''s'']),
      (''p'', [''px'', ''py'', ''pz'']),
      (''d'', [''dz2'', ''dxz'', ''dyz'', ''dxy'', ''dx2y2'']),
      (''f'', [''fz3'', ''fxz2'', ''fyz2'', ''fzx2y2'', ''fxyz'', ''fcos3'', ''fsin3''])]"

definition orbitalVariants :: "(string \<times> string) list" where
  "orbitalVariants = concat (map (\<lambda>(family, variants). map (Pair family) variants) FAMILY_VARIANTS)"

text \<open>A direction: a vector of length one.\<close>

definition unitVector :: "vec3 \<Rightarrow> bool" where
  "unitVector v = (vx v * vx v + vy v * vy v + vz v * vz v = 1)"

text \<open>
  The scalar product. A direction lies in the plane through the origin with normal \<open>a\<close>
  when its scalar product with \<open>a\<close> is zero.
\<close>

definition dot :: "vec3 \<Rightarrow> vec3 \<Rightarrow> real" where
  "dot a b = vx a * vx b + vy a * vy b + vz a * vz b"

text \<open>
  The amplitude of a variant is zero at the normal of each of its nodal planes.
\<close>

definition nodalNormalsVanish :: "string \<Rightarrow> string \<Rightarrow> bool" where
  "nodalNormalsVanish family variant =
     list_all (\<lambda>normal. evaluateOrbitalAmplitude family variant normal = 0)
       (planeNormals (buildNodalGroup family variant))"

section \<open>Properties of the electron configuration builder\<close>

subsection \<open>The filling loop\<close>

lemma capacities_nonneg: "\<forall>orb \<in> set os. 0 \<le> o_capacity orb \<Longrightarrow> 0 \<le> capacities os"
  by (induction os) (simp_all add: capacities_def)

lemma fillLoop_nonpos: "remaining \<le> 0 \<Longrightarrow> fillLoop os remaining = []"
  by (cases os) simp_all

lemma fillLoop_total:
  assumes "\<forall>orb \<in> set os. 0 \<le> o_capacity orb" and "0 \<le> remaining"
  shows "totalElectrons (fillLoop os remaining) = min remaining (capacities os)"
  using assms
proof (induction os arbitrary: remaining)
  case Nil
  then show ?case by (simp add: totalElectrons_def capacities_def)
next
  case (Cons orb rest)
  have rest_nonneg: "0 \<le> capacities rest"
    using Cons.prems(1) by (simp add: capacities_nonneg)
  show ?case
  proof (cases "remaining \<le> 0")
    case True
    with Cons.prems rest_nonneg show ?thesis
      by (simp add: totalElectrons_def capacities_def)
  next
    case False
    let ?e = "min (o_capacity orb) remaining"
    have ih: "totalElectrons (fillLoop rest (remaining - ?e)) = min (remaining - ?e) (capacities rest)"
      using Cons.IH [of "remaining - ?e"] Cons.prems by simp
    have "totalElectrons (fillLoop (orb # rest) remaining)
            = ?e + totalElectrons (fillLoop rest (remaining - ?e))"
      using False by (simp add: totalElectrons_def Let_def)
    also have "\<dots> = min remaining (capacities (orb # rest))"
      using ih rest_nonneg Cons.prems by (simp add: capacities_def min_def)
    finally show ?thesis .
  qed
qed

lemma fillLoop_occupancy:
  assumes "\<forall>orb \<in> set os. 0 < o_capacity orb" and "e \<in> set (fillLoop os remaining)"
  shows "0 < e_electrons e \<and> e_electrons e \<le> e_capacity e"
  using assms
proof (induction os arbitrary: remaining)
  case Nil
  then show ?case by simp
next
  case (Cons orb rest)
  then show ?case
    by (auto simp: Let_def split: if_splits)
qed

lemma fillLoop_full:
  assumes "\<forall>orb \<in> set os. 0 < o_capacity orb" and "capacities os \<le> remaining"
  shows "fillLoop os remaining = map fullEntry os"
  using assms
proof (induction os arbitrary: remaining)
  case Nil
  then show ?case by simp
next
  case (Cons orb rest)
  have "0 \<le> capacities rest"
    using Cons.prems(1) by (simp add: capacities_nonneg less_imp_le)
  with Cons.prems have big: "o_capacity orb \<le> remaining" "0 < remaining"
    "capacities rest \<le> remaining - o_capacity orb"
    by (auto simp: capacities_def)
  then show ?case
    using Cons.IH [of "remaining - o_capacity orb"] Cons.prems(1)
    by (simp add: Let_def fullEntry_def min_def)
qed

lemma fillLoop_subshells:
  "map (\<lambda>e. (e_n e, e_l e)) (fillLoop os remaining)
     = take (length (fillLoop os remaining)) (map (\<lambda>orb. (o_n orb, o_l orb)) os)"
  by (induction os arbitrary: remaining) (simp_all add: Let_def)

lemma ORBITAL_ORDER_capacities: "capacities ORBITAL_ORDER = 118"
  by (simp add: capacities_def ORBITAL_ORDER_def mkOrbital_def)

lemma ORBITAL_ORDER_positive: "\<forall>orb \<in> set ORBITAL_ORDER. 0 < o_capacity orb"
  by (simp add: ORBITAL_ORDER_def mkOrbital_def)

lemma exception_numbers:
  "EXCEPTION_ADJUSTMENTS z \<noteq> None \<longleftrightarrow>
     z \<in> {24, 29, 41, 42, 44, 45, 46, 47, 57, 58, 64, 78, 79, 89, 90, 91, 92, 93, 96, 103}"
  by (simp add: EXCEPTION_ADJUSTMENTS_def exceptionTable_def)

lemma build_regular:
  "EXCEPTION_ADJUSTMENTS z = None \<Longrightarrow>
     buildElectronConfiguration z = fillLoop ORBITAL_ORDER z"
  by (simp add: buildElectronConfiguration_def applyExceptions_def)


lemma exceptions_total:
  "list_all (\<lambda>z. totalElectrons (buildElectronConfiguration z) = z) (map fst exceptionTable)"
  by code_simp

lemma exceptions_occupied:
  "list_all (\<lambda>z. list_all occupied (buildElectronConfiguration z)) (map fst exceptionTable)"
  by code_simp

lemma exception_cases:
  "EXCEPTION_ADJUSTMENTS z = Some ops \<Longrightarrow> z \<in> set (map fst exceptionTable)"
  unfolding EXCEPTION_ADJUSTMENTS_def by (metis map_of_SomeD set_zip_leftD zip_map_fst_snd)

text \<open>
  Claim C1. For every atomic number from 1 to 118 the electron counts of the built
  configuration sum to the atomic number, with or without an exception rule. The filling
  loop alone already gives that total, so no rule of the table changes it: none loses
  electrons at the floor 0 or at the capacity cap.
\<close>

theorem total_electrons_is_atomic_number:
  assumes "1 \<le> z" and "z \<le> 118"
  shows "totalElectrons (buildElectronConfiguration z) = z \<and>
         totalElectrons (fillLoop ORBITAL_ORDER z) = z"
proof -
  have "totalElectrons (fillLoop ORBITAL_ORDER z) = min z (capacities ORBITAL_ORDER)"
    using ORBITAL_ORDER_positive assms(1) by (intro fillLoop_total) auto
  with assms(2) have filled: "totalElectrons (fillLoop ORBITAL_ORDER z) = z"
    by (simp add: ORBITAL_ORDER_capacities)
  have "totalElectrons (buildElectronConfiguration z) = z"
  proof (cases "EXCEPTION_ADJUSTMENTS z")
    case None
    with filled show ?thesis
      by (simp add: build_regular)
  next
    case (Some ops)
    then have "z \<in> set (map fst exceptionTable)"
      by (rule exception_cases)
    with exceptions_total show ?thesis
      unfolding list_all_iff by blast
  qed
  with filled show ?thesis
    by simp
qed

theorem total_electrons_is_atomic_number_witness:
  "(1::int) \<le> 46 \<and> (46::int) \<le> 118 \<and> totalElectrons (buildElectronConfiguration 46) = 46
   \<and> EXCEPTION_ADJUSTMENTS 46 \<noteq> None
   \<and> (1::int) \<le> 26 \<and> (26::int) \<le> 118 \<and> totalElectrons (buildElectronConfiguration 26) = 26
   \<and> EXCEPTION_ADJUSTMENTS 26 = None"
  using total_electrons_is_atomic_number [of 46] total_electrons_is_atomic_number [of 26]
  by (simp add: EXCEPTION_ADJUSTMENTS_def exceptionTable_def)

text \<open>
  Claim C4. Chromium (24): the built configuration has one electron in 4s and five in 3d,
  where the filling loop alone gives two in 4s and four in 3d.
\<close>

theorem chromium_configuration:
  "buildElectronConfiguration 24 =
     [mkEntry 1 ''s'' 2 2, mkEntry 2 ''s'' 2 2, mkEntry 2 ''p'' 6 6, mkEntry 3 ''s'' 2 2,
      mkEntry 3 ''p'' 6 6, mkEntry 4 ''s'' 2 1, mkEntry 3 ''d'' 10 5]
   \<and> map e_electrons (filter (\<lambda>e. e_n e = 4 \<and> e_l e = ''s'') (buildElectronConfiguration 24)) = [1]
   \<and> map e_electrons (filter (\<lambda>e. e_n e = 3 \<and> e_l e = ''d'') (buildElectronConfiguration 24)) = [5]
   \<and> fillLoop ORBITAL_ORDER 24 =
     [mkEntry 1 ''s'' 2 2, mkEntry 2 ''s'' 2 2, mkEntry 2 ''p'' 6 6, mkEntry 3 ''s'' 2 2,
      mkEntry 3 ''p'' 6 6, mkEntry 4 ''s'' 2 2, mkEntry 3 ''d'' 10 4]"
  by code_simp

text \<open>
  Claim C5. Calcium (20): the built configuration is exactly 1s2 2s2 2p6 3s2 3p6 4s2, it is
  formatted as that string, and it has two valence electrons.
\<close>

theorem calcium_configuration:
  "buildElectronConfiguration 20 =
     [mkEntry 1 ''s'' 2 2, mkEntry 2 ''s'' 2 2, mkEntry 2 ''p'' 6 6, mkEntry 3 ''s'' 2 2,
      mkEntry 3 ''p'' 6 6, mkEntry 4 ''s'' 2 2]
   \<and> formatElectronConfiguration (buildElectronConfiguration 20) = ''1s2 2s2 2p6 3s2 3p6 4s2''
   \<and> computeValenceElectrons (buildElectronConfiguration 20) = 2"
  by code_simp

text \<open>
  Claim C6. For every positive atomic number, every entry of the built configuration holds
  more than zero electrons and at most its capacity.
\<close>

theorem occupancy_within_capacity:
  assumes "0 < z" and "e \<in> set (buildElectronConfiguration z)"
  shows "0 < e_electrons e \<and> e_electrons e \<le> e_capacity e"
proof (cases "EXCEPTION_ADJUSTMENTS z")
  case None
  with assms(2) have "e \<in> set (fillLoop ORBITAL_ORDER z)"
    by (simp add: build_regular)
  with ORBITAL_ORDER_positive show ?thesis
    by (rule fillLoop_occupancy)
next
  case (Some ops)
  then have "z \<in> set (map fst exceptionTable)"
    by (rule exception_cases)
  with exceptions_occupied have "list_all occupied (buildElectronConfiguration z)"
    unfolding list_all_iff by blast
  with assms(2) show ?thesis
    unfolding list_all_iff occupied_def by blast
qed

theorem occupancy_within_capacity_witness:
  "(0::int) < 46 \<and> mkEntry 4 ''d'' 10 10 \<in> set (buildElectronConfiguration 46)
   \<and> 0 < e_electrons (mkEntry 4 ''d'' 10 10)
   \<and> e_electrons (mkEntry 4 ''d'' 10 10) \<le> e_capacity (mkEntry 4 ''d'' 10 10)"
proof -
  have "buildElectronConfiguration 46 =
     [mkEntry 1 ''s'' 2 2, mkEntry 2 ''s'' 2 2, mkEntry 2 ''p'' 6 6, mkEntry 3 ''s'' 2 2,
      mkEntry 3 ''p'' 6 6, mkEntry 4 ''s'' 2 2, mkEntry 3 ''d'' 10 10, mkEntry 4 ''p'' 6 6,
      mkEntry 4 ''d'' 10 10]"
    by code_simp
  then have mem: "mkEntry 4 ''d'' 10 10 \<in> set (buildElectronConfiguration 46)"
    by simp
  with occupancy_within_capacity [of 46 "mkEntry 4 ''d'' 10 10"] show ?thesis
    by simp
qed

text \<open>
  Claim C8. For an atomic number that is zero or negative the builder returns the empty
  configuration.
\<close>

theorem nonpositive_atomic_number_empty:
  assumes "z \<le> 0"
  shows "buildElectronConfiguration z = []"
proof -
  have "EXCEPTION_ADJUSTMENTS z = None"
    using assms exception_numbers [of z] by auto
  then show ?thesis
    using assms by (simp add: build_regular fillLoop_nonpos)
qed

theorem nonpositive_atomic_number_empty_witness:
  "(0::int) \<le> 0 \<and> buildElectronConfiguration 0 = []
   \<and> (-5::int) \<le> 0 \<and> buildElectronConfiguration (-5) = []"
  using nonpositive_atomic_number_empty [of 0] nonpositive_atomic_number_empty [of "-5"]
  by simp

text \<open>
  Claim C10. From atomic number 118 on, where no exception rule applies, the builder returns
  the 19 slots of the table, each filled to its capacity: 118 electrons in all, however
  large the atomic number.
\<close>

theorem table_exhausted_beyond_118:
  assumes "118 \<le> z" and "EXCEPTION_ADJUSTMENTS z = None"
  shows "buildElectronConfiguration z = map fullEntry ORBITAL_ORDER
         \<and> length (buildElectronConfiguration z) = 19
         \<and> totalElectrons (buildElectronConfiguration z) = 118"
proof -
  have full: "buildElectronConfiguration z = map fullEntry ORBITAL_ORDER"
    using assms ORBITAL_ORDER_positive
    by (simp add: build_regular fillLoop_full ORBITAL_ORDER_capacities)
  have "totalElectrons (map fullEntry ORBITAL_ORDER) = capacities ORBITAL_ORDER"
    by (simp add: totalElectrons_def capacities_def fullEntry_def comp_def)
  with full show ?thesis
    by (simp add: ORBITAL_ORDER_capacities) (simp add: ORBITAL_ORDER_def)
qed

theorem table_exhausted_beyond_118_witness:
  "(118::int) \<le> 5000 \<and> EXCEPTION_ADJUSTMENTS 5000 = None
   \<and> buildElectronConfiguration 5000 = map fullEntry ORBITAL_ORDER
   \<and> length (buildElectronConfiguration 5000) = 19
   \<and> totalElectrons (buildElectronConfiguration 5000) = 118"
proof -
  have none: "EXCEPTION_ADJUSTMENTS 5000 = None"
    by (simp add: EXCEPTION_ADJUSTMENTS_def exceptionTable_def)
  have le: "(118::int) \<le> 5000"
    by simp
  from table_exhausted_beyond_118 [OF le none] le none show ?thesis
    by blast
qed

subsection \<open>Keys and order indices\<close>

lemma showNat_digit: "k < 10 \<Longrightarrow> showNat k = [digitChar k]"
  by (simp add: showNat.simps)

lemma showNat_nonempty: "showNat k \<noteq> []"
  by (subst showNat.simps) simp

lemma orderKey_digit: "0 \<le> n \<Longrightarrow> n < 10 \<Longrightarrow> orderKey n l = digitChar (nat n) # l"
  by (simp add: orderKey_def showInt_def showNat_digit)

lemma digitChar_digit: "d < 10 \<Longrightarrow> digitChar d \<in> set ''0123456789''"
  unfolding digitChar_def by (rule nth_mem) simp

lemma digitChar_inj: "d < 10 \<Longrightarrow> d' < 10 \<Longrightarrow> digitChar d = digitChar d' \<Longrightarrow> d = d'"
  unfolding digitChar_def by (subst (asm) nth_eq_iff_index_eq) simp_all

lemma ORDER_INDEX_table:
  "ORDER_INDEX = [''1s'' \<mapsto> 0, ''2s'' \<mapsto> 1, ''2p'' \<mapsto> 2, ''3s'' \<mapsto> 3, ''3p'' \<mapsto> 4,
     ''4s'' \<mapsto> 5, ''3d'' \<mapsto> 6, ''4p'' \<mapsto> 7, ''5s'' \<mapsto> 8, ''4d'' \<mapsto> 9, ''5p'' \<mapsto> 10,
     ''6s'' \<mapsto> 11, ''4f'' \<mapsto> 12, ''5d'' \<mapsto> 13, ''6p'' \<mapsto> 14, ''7s'' \<mapsto> 15, ''5f'' \<mapsto> 16,
     ''6d'' \<mapsto> 17, ''7p'' \<mapsto> 18]"
  by (simp add: ORDER_INDEX_def ORBITAL_ORDER_def mkOrbital_def orderKey_digit digitChar_def
        upt_rec eval_nat_numeral)

lemma ORDER_INDEX_inj:
  "ORDER_INDEX a = Some i \<Longrightarrow> ORDER_INDEX b = Some i \<Longrightarrow> a = b"
  unfolding ORDER_INDEX_table by (simp split: if_splits)

lemma table_order_index:
  "map (\<lambda>orb. ORDER_INDEX (orderKey (o_n orb) (o_l orb))) ORBITAL_ORDER = map Some [0 ..< 19]"
  by (simp add: ORDER_INDEX_table ORBITAL_ORDER_def mkOrbital_def orderKey_digit digitChar_def
        upt_rec eval_nat_numeral)

text \<open>
  A key of the table is a digit followed by one of the letters s, p, d, f; only one pair
  \<open>(n, l)\<close> renders to it.
\<close>

lemma orderKey_unique:
  assumes key: "orderKey m l' = [digitChar d, x]"
    and d: "d < 10" and x: "x \<notin> set ''0123456789''"
  shows "m = int d \<and> l' = [x]"
proof (cases "m < 0")
  case True
  with key have "CHR ''-'' = digitChar d"
    by (simp add: orderKey_def showInt_def)
  with digitChar_digit [OF d] show ?thesis
    by auto
next
  case False
  define k where "k = nat m"
  from False key have k: "showNat k @ l' = [digitChar d, x]"
    by (simp add: orderKey_def showInt_def k_def)
  show ?thesis
  proof (cases "k < 10")
    case True
    with k have "digitChar k = digitChar d" "l' = [x]"
      by (simp_all add: showNat_digit)
    with True d False show ?thesis
      using digitChar_inj [of k d] by (simp add: k_def)
  next
    case ge: False
    obtain h t where ht: "showNat (k div 10) = h # t"
      using showNat_nonempty [of "k div 10"] by (cases "showNat (k div 10)") auto
    from ge have "showNat k = showNat (k div 10) @ [digitChar (k mod 10)]"
      by (subst showNat.simps) simp
    with k ht have "t @ [digitChar (k mod 10)] @ l' = [x]"
      by simp
    then have "digitChar (k mod 10) = x"
      by (cases t) auto
    with digitChar_digit [of "k mod 10"] x show ?thesis
      by simp
  qed
qed

lemma table_subshell_shape:
  "list_all (\<lambda>orb. 0 \<le> o_n orb \<and> o_n orb < 10 \<and> length (o_l orb) = 1 \<and>
                     hd (o_l orb) \<notin> set ''0123456789'') ORBITAL_ORDER"
  by (simp add: ORBITAL_ORDER_def mkOrbital_def)

lemma table_subshell_key:
  assumes "orb \<in> set ORBITAL_ORDER"
  obtains d x where "d < 10" and "x \<notin> set ''0123456789''"
    and "o_n orb = int d" and "o_l orb = [x]"
proof -
  from assms table_subshell_shape
  have shape: "0 \<le> o_n orb" "o_n orb < 10" "length (o_l orb) = 1"
    "hd (o_l orb) \<notin> set ''0123456789''"
    unfolding list_all_iff by blast+
  from shape(3) have "o_l orb = [hd (o_l orb)]"
    by (cases "o_l orb") simp_all
  moreover from shape(1,2) have "nat (o_n orb) < 10" "o_n orb = int (nat (o_n orb))"
    by simp_all
  ultimately show thesis
    using shape(4) that by blast
qed

text \<open>An entry whose order index is that of a table subshell is an entry of that subshell.\<close>

lemma same_index_same_subshell:
  assumes tmpl: "List.find (\<lambda>orb. o_n orb = n \<and> o_l orb = l) ORBITAL_ORDER = Some template"
    and oi: "ORDER_INDEX (orderKey n l) = Some orderIndex"
    and c: "orderIndexOf c = Some orderIndex"
  shows "e_n c = n \<and> e_l c = l"
proof -
  from tmpl have "template \<in> set ORBITAL_ORDER" "o_n template = n" "o_l template = l"
    by (auto simp: find_Some_iff)
  then obtain d x
    where dx: "d < 10" "x \<notin> set ''0123456789''" "n = int d" "l = [x]"
    using table_subshell_key [of template] by metis
  from c oi have "orderKey (e_n c) (e_l c) = orderKey n l"
    unfolding orderIndexOf_def by (rule ORDER_INDEX_inj)
  also have "\<dots> = [digitChar d, x]"
    using dx by (simp add: orderKey_digit)
  finally show ?thesis
    using orderKey_unique [OF _ dx(1,2)] dx by simp
qed

lemma table_subshell_indexed:
  assumes "List.find (\<lambda>orb. o_n orb = n \<and> o_l orb = l) ORBITAL_ORDER = Some template"
  shows "ORDER_INDEX (orderKey n l) \<noteq> None"
proof -
  from assms have t: "template \<in> set ORBITAL_ORDER" "o_n template = n" "o_l template = l"
    by (auto simp: find_Some_iff)
  have "\<forall>orb \<in> set ORBITAL_ORDER. ORDER_INDEX (orderKey (o_n orb) (o_l orb)) \<noteq> None"
  proof
    fix orb assume "orb \<in> set ORBITAL_ORDER"
    then have "ORDER_INDEX (orderKey (o_n orb) (o_l orb))
                 \<in> set (map (\<lambda>orb. ORDER_INDEX (orderKey (o_n orb) (o_l orb))) ORBITAL_ORDER)"
      by simp
    then show "ORDER_INDEX (orderKey (o_n orb) (o_l orb)) \<noteq> None"
      unfolding table_order_index by auto
  qed
  with t show ?thesis by blast
qed

subsection \<open>Insertion by ensureEntry\<close>

lemma insertAtLoop_takeWhile:
  "insertAtLoop config orderIndex i
     = i + length (takeWhile (\<lambda>c. \<not> exceedsIndex orderIndex c) config)"
  by (induction config arbitrary: i)
     (simp_all add: exceedsIndex_def orderIndexOf_def split: option.split)

lemma findIndex_None: "findIndex P xs = None \<longleftrightarrow> (\<forall>x \<in> set xs. \<not> P x)"
  by (induction xs) auto

lemma findIndex_Some:
  "findIndex P xs = Some i \<Longrightarrow> i < length xs \<and> P (xs ! i) \<and> (\<forall>j < i. \<not> P (xs ! j))"
proof (induction xs arbitrary: i)
  case Nil
  then show ?case by simp
next
  case (Cons x xs)
  show ?case
  proof (cases "P x")
    case True
    with Cons.prems show ?thesis by simp
  next
    case False
    with Cons.prems obtain k where k: "findIndex P xs = Some k" "i = Suc k"
      by auto
    from Cons.IH [OF k(1)] False k(2) show ?thesis
      by (auto simp: less_Suc_eq_0_disj)
  qed
qed

text \<open>
  When the subshell is absent from the configuration and present in the table, the new
  entry goes before the first entry whose order index exceeds its own, or to the end.
\<close>

lemma ensureEntry_inserts:
  assumes "findIndex (\<lambda>c. e_n c = n \<and> e_l c = l) config = None"
    and "List.find (\<lambda>orb. o_n orb = n \<and> o_l orb = l) ORBITAL_ORDER = Some template"
    and "ORDER_INDEX (orderKey n l) = Some orderIndex"
  shows "ensureEntry config n l =
           (takeWhile (\<lambda>c. \<not> exceedsIndex orderIndex c) config @ [newEntry n l template]
              @ dropWhile (\<lambda>c. \<not> exceedsIndex orderIndex c) config,
            Some (length (takeWhile (\<lambda>c. \<not> exceedsIndex orderIndex c) config)))"
  using assms
  by (simp add: ensureEntry_def insertAtLoop_takeWhile newEntry_def
        takeWhile_eq_take [symmetric] dropWhile_eq_drop [symmetric])

lemma orderIndexOf_newEntry:
  "orderIndexOf (newEntry n l template) = ORDER_INDEX (orderKey n l)"
  by (simp add: orderIndexOf_def newEntry_def)

lemma fillingOrdered_insert:
  assumes ord: "fillingOrdered config"
    and absent: "findIndex (\<lambda>c. e_n c = n \<and> e_l c = l) config = None"
    and tmpl: "List.find (\<lambda>orb. o_n orb = n \<and> o_l orb = l) ORBITAL_ORDER = Some template"
    and oi: "ORDER_INDEX (orderKey n l) = Some orderIndex"
  shows "fillingOrdered (takeWhile (\<lambda>c. \<not> exceedsIndex orderIndex c) config
           @ [newEntry n l template]
           @ dropWhile (\<lambda>c. \<not> exceedsIndex orderIndex c) config)"
proof -
  let ?P = "\<lambda>c. \<not> exceedsIndex orderIndex c"
  let ?idx = "\<lambda>c. the (orderIndexOf c)"
  let ?new = "newEntry n l template"
  from ord have defined: "\<forall>c \<in> set config. orderIndexOf c \<noteq> None"
    and sorted: "sorted_wrt (\<lambda>a b. ?idx a < ?idx b) config"
    by (simp_all add: fillingOrdered_def list_all_iff)
  have new_idx: "orderIndexOf ?new = Some orderIndex"
    using oi by (simp add: orderIndexOf_newEntry)
  have other: "?idx c \<noteq> orderIndex" if "c \<in> set config" for c
  proof
    assume "?idx c = orderIndex"
    with defined that have "orderIndexOf c = Some orderIndex"
      by auto
    with same_index_same_subshell [OF tmpl oi] have "e_n c = n \<and> e_l c = l"
      by blast
    with absent that show False
      by (auto simp: findIndex_None)
  qed
  have before: "?idx c < orderIndex" if "c \<in> set (takeWhile ?P config)" for c
  proof -
    from that have "c \<in> set config" "?P c"
      by (auto dest: set_takeWhileD)
    with defined other [of c] show ?thesis
      by (auto simp: exceedsIndex_def)
  qed
  have after: "orderIndex < ?idx c" if "c \<in> set (dropWhile ?P config)" for c
  proof (cases "dropWhile ?P config")
    case Nil
    with that show ?thesis by simp
  next
    case (Cons h t)
    then have "\<not> ?P h"
      using hd_dropWhile [of ?P config] by auto
    with defined have h: "orderIndex < ?idx h"
      by (auto simp: exceedsIndex_def split: option.splits)
    have "sorted_wrt (\<lambda>a b. ?idx a < ?idx b) (h # t)"
      using sorted Cons by (metis sorted_wrt_dropWhile)
    with that Cons h show ?thesis
      by auto
  qed
  have "sorted_wrt (\<lambda>a b. ?idx a < ?idx b) (takeWhile ?P config @ [?new] @ dropWhile ?P config)"
    using sorted before after new_idx
    by (fastforce simp: sorted_wrt_append dest: set_takeWhileD set_dropWhileD)
  moreover have "list_all (\<lambda>c. orderIndexOf c \<noteq> None)
                   (takeWhile ?P config @ [?new] @ dropWhile ?P config)"
    using defined new_idx by (auto simp: list_all_iff dest: set_takeWhileD set_dropWhileD)
  ultimately show ?thesis
    by (simp add: fillingOrdered_def)
qed

subsection \<open>The built configuration follows the filling order\<close>

lemma fillLoop_order_indices:
  "map orderIndexOf (fillLoop ORBITAL_ORDER z)
     = map Some (take (length (fillLoop ORBITAL_ORDER z)) [0 ..< 19])"
proof -
  have "map orderIndexOf (fillLoop ORBITAL_ORDER z)
          = map (\<lambda>(n, l). ORDER_INDEX (orderKey n l))
              (map (\<lambda>e. (e_n e, e_l e)) (fillLoop ORBITAL_ORDER z))"
    by (simp add: orderIndexOf_def comp_def)
  also have "\<dots> = take (length (fillLoop ORBITAL_ORDER z))
                     (map (\<lambda>orb. ORDER_INDEX (orderKey (o_n orb) (o_l orb))) ORBITAL_ORDER)"
    by (simp add: fillLoop_subshells take_map comp_def)
  finally show ?thesis
    by (simp only: table_order_index take_map)
qed

lemma fillingOrdered_indices:
  assumes "map orderIndexOf config = map Some is" and "sorted_wrt (<) is"
  shows "fillingOrdered config"
proof -
  from assms(1) have "\<forall>c \<in> set config. orderIndexOf c \<in> Some ` set is"
    by (metis (no_types, lifting) image_eqI list.set_map)
  then have "list_all (\<lambda>c. orderIndexOf c \<noteq> None) config"
    by (auto simp: list_all_iff)
  moreover from assms(1) have "map (\<lambda>c. the (orderIndexOf c)) config = is"
    by (metis (no_types, lifting) map_map map_idI comp_apply option.sel map_eq_conv)
  then have "sorted_wrt (\<lambda>a b. the (orderIndexOf a) < the (orderIndexOf b)) config"
    using assms(2) by (metis sorted_wrt_map)
  ultimately show ?thesis
    by (simp add: fillingOrdered_def)
qed

lemma fillLoop_fillingOrdered: "fillingOrdered (fillLoop ORBITAL_ORDER z)"
  by (rule fillingOrdered_indices [OF fillLoop_order_indices]) simp

lemma exceptions_fillingOrdered:
  "list_all (\<lambda>z. fillingOrdered (buildElectronConfiguration z)) (map fst exceptionTable)"
  by code_simp


lemma ensureEntry_position:
  assumes absent: "findIndex (\<lambda>c. e_n c = n \<and> e_l c = l) config = None"
    and tmpl: "List.find (\<lambda>orb. o_n orb = n \<and> o_l orb = l) ORBITAL_ORDER = Some template"
    and oi: "ORDER_INDEX (orderKey n l) = Some orderIndex"
  shows "\<exists>k \<le> length config.
           ensureEntry config n l
             = (take k config @ [newEntry n l template] @ drop k config, Some k) \<and>
           (\<forall>j < k. \<not> exceedsIndex orderIndex (config ! j)) \<and>
           (k < length config \<longrightarrow> exceedsIndex orderIndex (config ! k))"
proof -
  let ?P = "\<lambda>c. \<not> exceedsIndex orderIndex c"
  let ?k = "length (takeWhile ?P config)"
  have "?k \<le> length config"
    by (rule length_takeWhile_le)
  moreover have "ensureEntry config n l
      = (take ?k config @ [newEntry n l template] @ drop ?k config, Some ?k)"
    using ensureEntry_inserts [OF absent tmpl oi]
    by (simp add: takeWhile_eq_take [symmetric] dropWhile_eq_drop [symmetric])
  moreover have "\<forall>j < ?k. ?P (config ! j)"
  proof (intro allI impI)
    fix j assume j: "j < ?k"
    then have "takeWhile ?P config ! j \<in> set (takeWhile ?P config)"
      by (rule nth_mem)
    moreover from j have "takeWhile ?P config ! j = config ! j"
      by (rule takeWhile_nth)
    ultimately show "?P (config ! j)"
      by (metis set_takeWhileD)
  qed
  moreover have "?k < length config \<longrightarrow> exceedsIndex orderIndex (config ! ?k)"
    using nth_length_takeWhile [of ?P config] by blast
  ultimately show ?thesis
    by blast
qed

text \<open>
  Claim C7. For every positive atomic number the built configuration follows the filling
  order of the table, with strictly increasing order indices. And whenever \<open>ensureEntry\<close>
  creates an entry for a table subshell that a filling-ordered configuration lacks, the entry
  goes to the position of the first entry whose order index exceeds its own, or to the end
  when there is none, and the configuration still follows the filling order.
\<close>

theorem filling_order_preserved:
  "(0 < z \<longrightarrow> fillingOrdered (buildElectronConfiguration z)) \<and>
   (fillingOrdered config \<and>
    findIndex (\<lambda>c. e_n c = n \<and> e_l c = l) config = None \<and>
    List.find (\<lambda>orb. o_n orb = n \<and> o_l orb = l) ORBITAL_ORDER = Some template \<longrightarrow>
      ORDER_INDEX (orderKey n l) \<noteq> None \<and>
      (\<exists>k \<le> length config.
          ensureEntry config n l
            = (take k config @ [newEntry n l template] @ drop k config, Some k) \<and>
          (\<forall>j < k. \<not> exceedsIndex (the (ORDER_INDEX (orderKey n l))) (config ! j)) \<and>
          (k < length config \<longrightarrow>
             exceedsIndex (the (ORDER_INDEX (orderKey n l))) (config ! k))) \<and>
      fillingOrdered (fst (ensureEntry config n l)))"
proof (intro conjI impI)
  show "fillingOrdered (buildElectronConfiguration z)"
  proof (cases "EXCEPTION_ADJUSTMENTS z")
    case None
    then show ?thesis
      by (simp add: build_regular fillLoop_fillingOrdered)
  next
    case (Some ops)
    then have "z \<in> set (map fst exceptionTable)"
      by (rule exception_cases)
    with exceptions_fillingOrdered show ?thesis
      unfolding list_all_iff by blast
  qed
next
  assume a: "fillingOrdered config \<and>
    findIndex (\<lambda>c. e_n c = n \<and> e_l c = l) config = None \<and>
    List.find (\<lambda>orb. o_n orb = n \<and> o_l orb = l) ORBITAL_ORDER = Some template"
  then have ord: "fillingOrdered config"
    and absent: "findIndex (\<lambda>c. e_n c = n \<and> e_l c = l) config = None"
    and tmpl: "List.find (\<lambda>orb. o_n orb = n \<and> o_l orb = l) ORBITAL_ORDER = Some template"
    by simp_all
  from table_subshell_indexed [OF tmpl]
  obtain orderIndex where oi: "ORDER_INDEX (orderKey n l) = Some orderIndex"
    by blast
  then show "ORDER_INDEX (orderKey n l) \<noteq> None"
    by simp
  from ensureEntry_position [OF absent tmpl oi] oi
  show "\<exists>k \<le> length config.
          ensureEntry config n l
            = (take k config @ [newEntry n l template] @ drop k config, Some k) \<and>
          (\<forall>j < k. \<not> exceedsIndex (the (ORDER_INDEX (orderKey n l))) (config ! j)) \<and>
          (k < length config \<longrightarrow>
             exceedsIndex (the (ORDER_INDEX (orderKey n l))) (config ! k))"
    by simp
  from fillingOrdered_insert [OF ord absent tmpl oi] ensureEntry_inserts [OF absent tmpl oi]
  show "fillingOrdered (fst (ensureEntry config n l))"
    by simp
qed

theorem filling_order_preserved_witness:
  "(0::int) < 57 \<and> fillingOrdered (buildElectronConfiguration 57) \<and>
   map orderIndexOf (buildElectronConfiguration 57)
     = map Some [0, 1, 2, 3, 4, 5, 6, 7, 8, 9, 10, 11, 13] \<and>
   fillingOrdered [mkEntry 1 ''s'' 2 2, mkEntry 2 ''p'' 6 6] \<and>
   findIndex (\<lambda>c. e_n c = 2 \<and> e_l c = ''s'') [mkEntry 1 ''s'' 2 2, mkEntry 2 ''p'' 6 6] = None \<and>
   List.find (\<lambda>orb. o_n orb = 2 \<and> o_l orb = ''s'') ORBITAL_ORDER = Some (mkOrbital 2 ''s'' 2) \<and>
   ensureEntry [mkEntry 1 ''s'' 2 2, mkEntry 2 ''p'' 6 6] 2 ''s''
     = ([mkEntry 1 ''s'' 2 2, mkEntry 2 ''s'' 2 0, mkEntry 2 ''p'' 6 6], Some 1) \<and>
   fillingOrdered (fst (ensureEntry [mkEntry 1 ''s'' 2 2, mkEntry 2 ''p'' 6 6] 2 ''s''))"
proof -
  let ?config = "[mkEntry 1 ''s'' 2 2, mkEntry 2 ''p'' 6 6]"
  have pos: "(0::int) < 57"
    by simp
  have indices: "map orderIndexOf (buildElectronConfiguration 57)
     = map Some [0, 1, 2, 3, 4, 5, 6, 7, 8, 9, 10, 11, 13]"
    by code_simp
  have hyps: "fillingOrdered ?config \<and>
      findIndex (\<lambda>c. e_n c = 2 \<and> e_l c = ''s'') ?config = None \<and>
      List.find (\<lambda>orb. o_n orb = 2 \<and> o_l orb = ''s'') ORBITAL_ORDER = Some (mkOrbital 2 ''s'' 2)"
    by code_simp
  have result: "ensureEntry ?config 2 ''s''
     = ([mkEntry 1 ''s'' 2 2, mkEntry 2 ''s'' 2 0, mkEntry 2 ''p'' 6 6], Some 1)"
    by code_simp
  note inst = filling_order_preserved [of 57 ?config 2 "''s''" "mkOrbital 2 ''s'' 2"]
  from inst pos have "fillingOrdered (buildElectronConfiguration 57)"
    by blast
  moreover from inst hyps have "fillingOrdered (fst (ensureEntry ?config 2 ''s''))"
    by blast
  ultimately show ?thesis
    using pos indices hyps result by blast
qed

section \<open>Properties of the orbital field model\<close>

subsection \<open>Directions and angles\<close>

lemma normalize_vec_axis:
  "normalize_vec (Vector3 1 0 0) = Vector3 1 0 0"
  "normalize_vec (Vector3 0 1 0) = Vector3 0 1 0"
  "normalize_vec (Vector3 0 0 1) = Vector3 0 0 1"
  by (simp_all add: normalize_vec_def vlength_def)

lemma atan2_axis: "atan2 0 1 = 0" "atan2 0 0 = 0" "atan2 1 0 = pi / 2"
  by (simp_all add: atan2_def)

lemmas nodal_defs = planeNormals_def buildNodalGroup_def nodalChildren_def
  addPlanes_def addCones_def createPlaneNode_def createDoubleConeNode_def

lemmas normal_simps = normalize_vec_axis

subsection \<open>The nodal-plane normals of each variant\<close>

lemma normals_s: "planeNormals (buildNodalGroup ''s'' ''s'') = []"
  by (simp add: nodal_defs)

lemma normals_px: "planeNormals (buildNodalGroup ''p'' ''px'') = [Vector3 1 0 0]"
  by (simp add: nodal_defs normal_simps)

lemma normals_dz2: "planeNormals (buildNodalGroup ''d'' ''dz2'') = []"
  by (simp add: nodal_defs)

lemma normals_dyz: "planeNormals (buildNodalGroup ''d'' ''dyz'') = [Vector3 0 1 0, Vector3 0 0 1]"
  by (simp add: nodal_defs normal_simps)

lemma normals_fz3: "planeNormals (buildNodalGroup ''f'' ''fz3'') = [Vector3 0 1 0]"
  by (simp add: nodal_defs normal_simps)

lemma normals_fxz2: "planeNormals (buildNodalGroup ''f'' ''fxz2'') = [Vector3 1 0 0]"
  by (simp add: nodal_defs normal_simps)

lemma normals_fxyz:
  "planeNormals (buildNodalGroup ''f'' ''fxyz'') = [Vector3 1 0 0, Vector3 0 1 0, Vector3 0 0 1]"
  by (simp add: nodal_defs normal_simps)


subsection \<open>The amplitude at the nodal-plane normals\<close>

lemmas amplitude_simps = evaluateOrbitalAmplitude_def atan2_axis

lemma vanish_s: "nodalNormalsVanish ''s'' ''s''"
  by (simp add: nodalNormalsVanish_def normals_s)

lemma vanish_dz2: "nodalNormalsVanish ''d'' ''dz2''"
  by (simp add: nodalNormalsVanish_def normals_dz2)

lemma vanish_dyz: "nodalNormalsVanish ''d'' ''dyz''"
  by (simp add: nodalNormalsVanish_def normals_dyz amplitude_simps)

lemma vanish_fxyz: "nodalNormalsVanish ''f'' ''fxyz''"
  by (simp add: nodalNormalsVanish_def normals_fxyz amplitude_simps)

lemma amplitude_px: "evaluateOrbitalAmplitude ''p'' ''px'' (Vector3 1 0 0) = 1"
  by (simp add: amplitude_simps)

lemma amplitude_fz3: "evaluateOrbitalAmplitude ''f'' ''fz3'' (Vector3 0 1 0) = 1"
  by (simp add: amplitude_simps)

lemma amplitude_fxz2: "evaluateOrbitalAmplitude ''f'' ''fxz2'' (Vector3 1 0 0) = - (1 / 2)"
  by (simp add: amplitude_simps)

lemma not_vanish_px: "\<not> nodalNormalsVanish ''p'' ''px''"
  by (simp add: nodalNormalsVanish_def normals_px amplitude_px)

lemma not_vanish_fz3: "\<not> nodalNormalsVanish ''f'' ''fz3''"
  by (simp add: nodalNormalsVanish_def normals_fz3 amplitude_fz3)

lemma not_vanish_fxz2: "\<not> nodalNormalsVanish ''f'' ''fxz2''"
  by (simp add: nodalNormalsVanish_def normals_fxz2 amplitude_fxz2)

subsection \<open>Bounds on the amplitude\<close>

lemma abs_product_le_one:
  fixes a b :: real
  assumes "\<bar>a\<bar> \<le> 1" and "\<bar>b\<bar> \<le> 1"
  shows "\<bar>a * b\<bar> \<le> 1"
proof -
  have "\<bar>a * b\<bar> = \<bar>a\<bar> * \<bar>b\<bar>"
    by (rule abs_mult)
  also have "\<dots> \<le> 1 * 1"
    using assms by (intro mult_mono) simp_all
  finally show ?thesis by simp
qed

text \<open>The cubic of \<open>fz3\<close> (and of the fallback of the f family) on \<open>[-1, 1]\<close>.\<close>

lemma cubic_fz3_bound:
  fixes c :: real
  assumes "\<bar>c\<bar> \<le> 1"
  shows "\<bar>0.5 * c * (5 * c * c - 3)\<bar> \<le> 1"
proof -
  have "0 \<le> (1 - c) * (5 * (c + 1 / 2)\<^sup>2 + 3 / 4)"
    using assms by (intro mult_nonneg_nonneg) auto
  then have upper: "c * (5 * c * c - 3) \<le> 2"
    by (simp add: algebra_simps power2_eq_square)
  have "0 \<le> (1 + c) * (5 * (c - 1 / 2)\<^sup>2 + 3 / 4)"
    using assms by (intro mult_nonneg_nonneg) auto
  then have lower: "- 2 \<le> c * (5 * c * c - 3)"
    by (simp add: algebra_simps power2_eq_square)
  from upper lower show ?thesis
    by (simp add: abs_le_iff)
qed

text \<open>The radial factor of \<open>fxz2\<close> and \<open>fyz2\<close>, with \<open>s\<close> the sine and \<open>c\<close> the cosine.\<close>

lemma factor_fxz2_bound:
  fixes c s :: real
  assumes s0: "0 \<le> s" and s1: "s \<le> 1" and ss: "s * s = 1 - c * c"
  shows "\<bar>0.5 * s * (5 * c * c - 1)\<bar> \<le> 1"
proof -
  have cc: "c * c = 1 - s * s"
    using ss by simp
  have "0 \<le> 5 * s * (s - 1 / 2)\<^sup>2 + 5 * (s - 21 / 40)\<^sup>2 + 199 / 320"
    using s0 by (intro add_nonneg_nonneg mult_nonneg_nonneg) auto
  then have "s * (4 - 5 * (s * s)) \<le> 2"
    by (simp add: algebra_simps power2_eq_square)
  moreover have "5 * c * c - 1 = 4 - 5 * (s * s)"
    using cc by (simp add: mult.assoc)
  ultimately have upper: "s * (5 * c * c - 1) \<le> 2"
    by simp
  have "0 \<le> c * c"
    by simp
  with s0 have "0 \<le> 5 * s * (c * c)"
    by simp
  with s1 have "0 \<le> 5 * s * (c * c) + (2 - s)"
    by simp
  then have lower: "- 2 \<le> s * (5 * c * c - 1)"
    by (simp add: algebra_simps)
  from upper lower show ?thesis
    by (simp add: abs_le_iff)
qed


lemma amplitude_bounded:
  assumes unit: "unitVector dir"
  shows "\<bar>evaluateOrbitalAmplitude family variant dir\<bar> \<le> 1"
proof -
  define c where "c = vy dir"
  define s where "s = sqrt (max 0 (1 - c * c))"
  define phi where "phi = atan2 (vz dir) (vx dir)"
  have "0 \<le> vx dir * vx dir" "0 \<le> vz dir * vz dir"
    by simp_all
  with unit have cc: "c * c \<le> 1"
    unfolding unitVector_def c_def by linarith
  then have "c\<^sup>2 \<le> 1\<^sup>2"
    by (simp add: power2_eq_square)
  then have c1: "\<bar>c\<bar> \<le> 1"
    using abs_le_square_iff [of c 1] by simp
  have s_eq: "s = sqrt (1 - c * c)"
    using cc by (simp add: s_def max_def)
  have s0: "0 \<le> s"
    using cc by (simp add: s_eq)
  have ss: "s * s = 1 - c * c"
    using cc by (simp add: s_eq)
  have c2: "0 \<le> c * c"
    by simp
  then have "s * s \<le> 1"
    using ss by linarith
  then have "s\<^sup>2 \<le> 1\<^sup>2"
    by (simp add: power2_eq_square)
  then have "\<bar>s\<bar> \<le> 1"
    using abs_le_square_iff [of s 1] by simp
  with s0 have s1: "s \<le> 1" and sa: "\<bar>s\<bar> \<le> 1"
    by simp_all
  note prod = abs_product_le_one
  note unit_bounds = sa c1 abs_cos_le_one abs_sin_le_one
  have px: "\<bar>s * cos phi\<bar> \<le> 1"
    by (intro prod unit_bounds)
  have py: "\<bar>s * sin phi\<bar> \<le> 1"
    by (intro prod unit_bounds)
  have "0 \<le> 3 * (c * c)"
    by simp
  then have "- ((3 * (c * c) - 1) / 2) \<le> 1"
    by simp
  moreover have "(3 * (c * c) - 1) / 2 \<le> 1"
    using cc by simp
  ultimately have "\<bar>(3 * (c * c) - 1) / 2\<bar> \<le> 1"
    unfolding abs_le_iff by blast
  moreover have "0.5 * (3 * c * c - 1) = (3 * (c * c) - 1) / 2"
    by simp
  ultimately have dz2: "\<bar>0.5 * (3 * c * c - 1)\<bar> \<le> 1"
    by (simp only:)
  have dxz: "\<bar>s * c * cos phi\<bar> \<le> 1"
    by (intro prod unit_bounds)
  have dyz: "\<bar>s * c * sin phi\<bar> \<le> 1"
    by (intro prod unit_bounds)
  have dxy: "\<bar>s * s * sin (2 * phi)\<bar> \<le> 1"
    by (intro prod unit_bounds)
  have dx2y2: "\<bar>s * s * cos (2 * phi)\<bar> \<le> 1"
    by (intro prod unit_bounds)
  have fz3: "\<bar>0.5 * c * (5 * c * c - 3)\<bar> \<le> 1"
    using c1 by (rule cubic_fz3_bound)
  have factor: "\<bar>0.5 * s * (5 * c * c - 1)\<bar> \<le> 1"
    using s0 s1 ss by (rule factor_fxz2_bound)
  have "\<bar>(0.5 * s * (5 * c * c - 1)) * cos phi\<bar> \<le> 1"
    by (intro prod factor unit_bounds)
  moreover have "0.5 * s * cos phi * (5 * c * c - 1) = (0.5 * s * (5 * c * c - 1)) * cos phi"
    by simp
  ultimately have fxz2: "\<bar>0.5 * s * cos phi * (5 * c * c - 1)\<bar> \<le> 1"
    by (simp only:)
  have "\<bar>(0.5 * s * (5 * c * c - 1)) * sin phi\<bar> \<le> 1"
    by (intro prod factor unit_bounds)
  moreover have "0.5 * s * sin phi * (5 * c * c - 1) = (0.5 * s * (5 * c * c - 1)) * sin phi"
    by simp
  ultimately have fyz2: "\<bar>0.5 * s * sin phi * (5 * c * c - 1)\<bar> \<le> 1"
    by (simp only:)
  have fzx2y2: "\<bar>s * s * c * cos (2 * phi)\<bar> \<le> 1"
    by (intro prod unit_bounds)
  have fxyz: "\<bar>s * s * c * sin (2 * phi)\<bar> \<le> 1"
    by (intro prod unit_bounds)
  have fcos3: "\<bar>s ^ 3 * cos (3 * phi)\<bar> \<le> 1"
    unfolding power3_eq_cube by (intro prod unit_bounds)
  have fsin3: "\<bar>s ^ 3 * sin (3 * phi)\<bar> \<le> 1"
    unfolding power3_eq_cube by (intro prod unit_bounds)
  have "evaluateOrbitalAmplitude family variant dir =
     (if family = ''s'' then 1
      else if family = ''p'' then
        (if variant = ''px'' then s * cos phi
         else if variant = ''py'' then s * sin phi
         else c)
      else if family = ''d'' then
        (if variant = ''dz2'' then 0.5 * (3 * c * c - 1)
         else if variant = ''dxz'' then s * c * cos phi
         else if variant = ''dyz'' then s * c * sin phi
         else if variant = ''dxy'' then s * s * sin (2 * phi)
         else s * s * cos (2 * phi))
      else if family = ''f'' then
        (if variant = ''fz3'' then 0.5 * c * (5 * c * c - 3)
         else if variant = ''fxz2'' then 0.5 * s * cos phi * (5 * c * c - 1)
         else if variant = ''fyz2'' then 0.5 * s * sin phi * (5 * c * c - 1)
         else if variant = ''fzx2y2'' then s * s * c * cos (2 * phi)
         else if variant = ''fxyz'' then s * s * c * sin (2 * phi)
         else if variant = ''fcos3'' then s ^ 3 * cos (3 * phi)
         else if variant = ''fsin3'' then s ^ 3 * sin (3 * phi)
         else 0.5 * c * (5 * c * c - 3))
      else 1)"
    by (simp add: evaluateOrbitalAmplitude_def Let_def c_def s_def phi_def)
  then show ?thesis
    by (simp only: c1 px py dz2 dxz dyz dxy dx2y2 fz3 fxz2 fyz2 fzx2y2 fxyz fcos3 fsin3
          abs_one order_refl simp_thms split: if_split)
qed

subsection \<open>Directions inside a nodal plane\<close>

lemma unit_on_axis:
  assumes "unitVector dir" and "vx dir = 0" and "vz dir = 0"
  shows "sqrt (max 0 (1 - vy dir * vy dir)) = 0"
  using assms by (simp add: unitVector_def)

lemma atan2_x_zero:
  "atan2 z 0 = (if 0 < z then pi / 2 else if z < 0 then - (pi / 2) else 0)"
  by (simp add: atan2_def)

lemma atan2_z_zero: "atan2 0 x = (if x < 0 then pi else 0)"
  by (simp add: atan2_def)

text \<open>With \<open>x = 0\<close> the product \<open>sinT * cos phi\<close> is zero.\<close>

lemma sinT_cos_phi_x_zero:
  assumes "unitVector dir" and "vx dir = 0"
  shows "sqrt (max 0 (1 - vy dir * vy dir)) * cos (atan2 (vz dir) (vx dir)) = 0"
proof (cases "vz dir = 0")
  case True
  with assms show ?thesis
    by (simp add: unit_on_axis)
next
  case False
  with assms(2) show ?thesis
    by (simp add: atan2_x_zero)
qed

text \<open>With \<open>x = 0\<close> the product \<open>sinT * sin (2 * phi)\<close> is zero.\<close>

lemma sinT_sin_2phi_x_zero:
  assumes "unitVector dir" and "vx dir = 0"
  shows "sqrt (max 0 (1 - vy dir * vy dir)) * sin (2 * atan2 (vz dir) (vx dir)) = 0"
proof (cases "vz dir = 0")
  case True
  with assms show ?thesis
    by (simp add: unit_on_axis)
next
  case False
  with assms(2) show ?thesis
    by (simp add: atan2_x_zero)
qed

lemma sin_phi_z_zero: "sin (atan2 0 x) = 0" "sin (2 * atan2 0 x) = 0"
  by (simp_all add: atan2_z_zero)

lemma plane_px:
  assumes "unitVector dir" and "dot (Vector3 1 0 0) dir = 0"
  shows "evaluateOrbitalAmplitude ''p'' ''px'' dir = 0"
  using sinT_cos_phi_x_zero [of dir] assms
  by (auto simp: evaluateOrbitalAmplitude_def dot_def Let_def)

lemma plane_dyz:
  assumes "unitVector dir"
    and "dot (Vector3 0 1 0) dir = 0 \<or> dot (Vector3 0 0 1) dir = 0"
  shows "evaluateOrbitalAmplitude ''d'' ''dyz'' dir = 0"
  using assms(2) by (auto simp: evaluateOrbitalAmplitude_def dot_def sin_phi_z_zero Let_def)

lemma plane_fz3:
  assumes "dot (Vector3 0 1 0) dir = 0"
  shows "evaluateOrbitalAmplitude ''f'' ''fz3'' dir = 0"
  using assms by (simp add: evaluateOrbitalAmplitude_def dot_def Let_def)

lemma plane_fxz2:
  assumes "unitVector dir" and "dot (Vector3 1 0 0) dir = 0"
  shows "evaluateOrbitalAmplitude ''f'' ''fxz2'' dir = 0"
  using sinT_cos_phi_x_zero [of dir] assms
  by (auto simp: evaluateOrbitalAmplitude_def dot_def Let_def)

lemma plane_fxyz:
  assumes "unitVector dir"
    and "dot (Vector3 1 0 0) dir = 0 \<or> dot (Vector3 0 1 0) dir = 0 \<or> dot (Vector3 0 0 1) dir = 0"
  shows "evaluateOrbitalAmplitude ''f'' ''fxyz'' dir = 0"
  using assms(2)
proof (elim disjE)
  assume "dot (Vector3 1 0 0) dir = 0"
  then have "vx dir = 0"
    by (simp add: dot_def)
  with sinT_sin_2phi_x_zero [OF assms(1)] show ?thesis
    by (auto simp: evaluateOrbitalAmplitude_def Let_def)
next
  assume "dot (Vector3 0 1 0) dir = 0"
  then show ?thesis
    by (simp add: evaluateOrbitalAmplitude_def dot_def Let_def)
next
  assume "dot (Vector3 0 0 1) dir = 0"
  then show ?thesis
    by (simp add: evaluateOrbitalAmplitude_def dot_def sin_phi_z_zero Let_def)
qed

subsection \<open>The enumerated variants and the fallbacks\<close>

lemma orbitalVariants_list:
  "orbitalVariants =
     [(''s'', ''s''), (''p'', ''px''), (''p'', ''py''), (''p'', ''pz''),
      (''d'', ''dz2''), (''d'', ''dxz''), (''d'', ''dyz''), (''d'', ''dxy''), (''d'', ''dx2y2''),
      (''f'', ''fz3''), (''f'', ''fxz2''), (''f'', ''fyz2''), (''f'', ''fzx2y2''),
      (''f'', ''fxyz''), (''f'', ''fcos3''), (''f'', ''fsin3'')]"
  by (simp add: orbitalVariants_def FAMILY_VARIANTS_def)

text \<open>
  Claim C2 fails as stated: \<open>px\<close> is an enumerated variant, its nodal plane has the normal
  \<open>(1, 0, 0)\<close>, and the amplitude there is 1, not 0.
\<close>

theorem nodal_normal_px_counterexample:
  "(''p'', ''px'') \<in> set orbitalVariants \<and>
   Vector3 1 0 0 \<in> set (planeNormals (buildNodalGroup ''p'' ''px'')) \<and>
   unitVector (Vector3 1 0 0) \<and>
   evaluateOrbitalAmplitude ''p'' ''px'' (Vector3 1 0 0) = 1"
  by (simp add: orbitalVariants_list normals_px amplitude_px unitVector_def)

text \<open>
  Claim C2, amended. Seven of the enumerated pairs list only nodal planes on which the
  amplitude is zero: \<open>s\<close> and \<open>dz2\<close> (no plane), \<open>px\<close>, \<open>dyz\<close>, \<open>fz3\<close>, \<open>fxz2\<close> and \<open>fxyz\<close>.
  For these the amplitude is zero at every unit direction lying in a listed plane, that is,
  orthogonal to its normal. At the normals themselves the amplitude is zero for \<open>dyz\<close> and
  \<open>fxyz\<close>, and not zero for \<open>px\<close>, \<open>fz3\<close> and \<open>fxz2\<close>, whose lobes point along the normal.
\<close>

theorem nodal_planes_are_zero_sets:
  assumes "(family, variant) \<in> {(''s'', ''s''), (''p'', ''px''), (''d'', ''dz2''),
             (''d'', ''dyz''), (''f'', ''fz3''), (''f'', ''fxz2''), (''f'', ''fxyz'')}"
  shows "(family, variant) \<in> set orbitalVariants \<and>
         (normal \<in> set (planeNormals (buildNodalGroup family variant)) \<and>
          unitVector dir \<and> dot normal dir = 0 \<longrightarrow>
            evaluateOrbitalAmplitude family variant dir = 0) \<and>
         (nodalNormalsVanish family variant \<longleftrightarrow>
            (family, variant) \<notin> {(''p'', ''px''), (''f'', ''fz3''), (''f'', ''fxz2'')})"
  using assms
proof (elim insertE emptyE)
  assume "(family, variant) = (''s'', ''s'')"
  then show ?thesis
    by (simp add: orbitalVariants_list normals_s vanish_s)
next
  assume "(family, variant) = (''p'', ''px'')"
  then show ?thesis
    by (auto simp: orbitalVariants_list normals_px not_vanish_px plane_px)
next
  assume "(family, variant) = (''d'', ''dz2'')"
  then show ?thesis
    by (simp add: orbitalVariants_list normals_dz2 vanish_dz2)
next
  assume "(family, variant) = (''d'', ''dyz'')"
  then show ?thesis
    by (auto simp: orbitalVariants_list normals_dyz vanish_dyz plane_dyz)
next
  assume "(family, variant) = (''f'', ''fz3'')"
  then show ?thesis
    by (auto simp: orbitalVariants_list normals_fz3 not_vanish_fz3 plane_fz3)
next
  assume "(family, variant) = (''f'', ''fxz2'')"
  then show ?thesis
    by (auto simp: orbitalVariants_list normals_fxz2 not_vanish_fxz2 plane_fxz2)
next
  assume "(family, variant) = (''f'', ''fxyz'')"
  then show ?thesis
    by (auto simp: orbitalVariants_list normals_fxyz vanish_fxyz plane_fxyz)
qed

theorem nodal_planes_are_zero_sets_witness:
  "(''p'', ''px'') \<in> set orbitalVariants \<and>
   Vector3 1 0 0 \<in> set (planeNormals (buildNodalGroup ''p'' ''px'')) \<and>
   unitVector (Vector3 0 (3 / 5) (4 / 5)) \<and>
   dot (Vector3 1 0 0) (Vector3 0 (3 / 5) (4 / 5)) = 0 \<and>
   evaluateOrbitalAmplitude ''p'' ''px'' (Vector3 0 (3 / 5) (4 / 5)) = 0 \<and>
   \<not> nodalNormalsVanish ''p'' ''px'' \<and>
   evaluateOrbitalAmplitude ''p'' ''px'' (Vector3 1 0 0) = 1 \<and>
   (''d'', ''dyz'') \<in> set orbitalVariants \<and>
   planeNormals (buildNodalGroup ''d'' ''dyz'') = [Vector3 0 1 0, Vector3 0 0 1] \<and>
   nodalNormalsVanish ''d'' ''dyz''"
proof -
  have hyps: "Vector3 1 0 0 \<in> set (planeNormals (buildNodalGroup ''p'' ''px''))"
    "unitVector (Vector3 0 (3 / 5) (4 / 5))"
    "dot (Vector3 1 0 0) (Vector3 0 (3 / 5) (4 / 5)) = 0"
    by (simp_all add: normals_px unitVector_def dot_def)
  from nodal_planes_are_zero_sets
         [of "''p''" "''px''" "Vector3 1 0 0" "Vector3 0 (3 / 5) (4 / 5)"] hyps
  have px: "(''p'', ''px'') \<in> set orbitalVariants"
    "evaluateOrbitalAmplitude ''p'' ''px'' (Vector3 0 (3 / 5) (4 / 5)) = 0"
    "\<not> nodalNormalsVanish ''p'' ''px''"
    by simp_all
  from nodal_planes_are_zero_sets [of "''d''" "''dyz''"]
  have dyz: "(''d'', ''dyz'') \<in> set orbitalVariants" "nodalNormalsVanish ''d'' ''dyz''"
    by simp_all
  from hyps px dyz amplitude_px normals_dyz show ?thesis
    by simp
qed

text \<open>
  Claim C3 fails as stated: the pair \<open>(p, s)\<close> is outside the enumerated set, yet its
  amplitude at \<open>(1, 0, 0)\<close> is 0, not 1, and its nodal group holds a plane.
\<close>

theorem unrecognized_pair_counterexample:
  "(''p'', ''s'') \<notin> set orbitalVariants \<and>
   evaluateOrbitalAmplitude ''p'' ''s'' (Vector3 1 0 0) = 0 \<and>
   buildNodalGroup ''p'' ''s'' = Some [PlaneNode (Vector3 0 0 1)]"
  by (simp add: orbitalVariants_list evaluateOrbitalAmplitude_def buildNodalGroup_def
        nodalChildren_def addPlanes_def createPlaneNode_def normalize_vec_axis)

text \<open>
  Claim C3, amended. For a pair outside the enumerated set, a family other than p, d and f
  gives the amplitude 1 and no nodal group; an unrecognised variant of the family p, d or f
  falls back inside its family: to the amplitude and nodal planes of \<open>pz\<close>, to those of
  \<open>dx2y2\<close>, and to the amplitude of \<open>fz3\<close> with the single nodal plane of normal
  \<open>(0, 1, 0)\<close>. Both functions are total: no input raises an error.
\<close>

theorem unrecognized_pair_fallback:
  assumes "(family, variant) \<notin> set orbitalVariants"
  shows "(family \<notin> {''p'', ''d'', ''f''} \<longrightarrow>
            evaluateOrbitalAmplitude family variant dir = 1 \<and>
            buildNodalGroup family variant = None) \<and>
         (family = ''p'' \<longrightarrow>
            evaluateOrbitalAmplitude family variant dir
              = evaluateOrbitalAmplitude ''p'' ''pz'' dir \<and>
            buildNodalGroup family variant = buildNodalGroup ''p'' ''pz'') \<and>
         (family = ''d'' \<longrightarrow>
            evaluateOrbitalAmplitude family variant dir
              = evaluateOrbitalAmplitude ''d'' ''dx2y2'' dir \<and>
            buildNodalGroup family variant = buildNodalGroup ''d'' ''dx2y2'') \<and>
         (family = ''f'' \<longrightarrow>
            evaluateOrbitalAmplitude family variant dir
              = evaluateOrbitalAmplitude ''f'' ''fz3'' dir \<and>
            buildNodalGroup family variant = Some [PlaneNode (Vector3 0 1 0)])"
proof (intro conjI impI)
  assume "family \<notin> {''p'', ''d'', ''f''}"
  then show "evaluateOrbitalAmplitude family variant dir = 1"
    by (simp add: evaluateOrbitalAmplitude_def Let_def)
next
  assume "family \<notin> {''p'', ''d'', ''f''}"
  then show "buildNodalGroup family variant = None"
    by (simp add: buildNodalGroup_def nodalChildren_def)
next
  assume "family = ''p''"
  with assms have v: "family = ''p''" "variant \<noteq> ''px''" "variant \<noteq> ''py''"
    by (auto simp: orbitalVariants_list)
  then show "evaluateOrbitalAmplitude family variant dir
               = evaluateOrbitalAmplitude ''p'' ''pz'' dir"
    by (simp add: evaluateOrbitalAmplitude_def Let_def)
  from v show "buildNodalGroup family variant = buildNodalGroup ''p'' ''pz''"
    by (simp add: buildNodalGroup_def nodalChildren_def)
next
  assume "family = ''d''"
  with assms have v: "family = ''d''" "variant \<noteq> ''dz2''" "variant \<noteq> ''dxz''"
    "variant \<noteq> ''dyz''" "variant \<noteq> ''dxy''"
    by (auto simp: orbitalVariants_list)
  then show "evaluateOrbitalAmplitude family variant dir
               = evaluateOrbitalAmplitude ''d'' ''dx2y2'' dir"
    by (simp add: evaluateOrbitalAmplitude_def Let_def)
  from v show "buildNodalGroup family variant = buildNodalGroup ''d'' ''dx2y2''"
    by (simp add: buildNodalGroup_def nodalChildren_def)
next
  assume "family = ''f''"
  with assms have v: "family = ''f''" "variant \<noteq> ''fz3''" "variant \<noteq> ''fxz2''"
    "variant \<noteq> ''fyz2''" "variant \<noteq> ''fzx2y2''" "variant \<noteq> ''fxyz''"
    "variant \<noteq> ''fcos3''" "variant \<noteq> ''fsin3''"
    by (auto simp: orbitalVariants_list)
  then show "evaluateOrbitalAmplitude family variant dir
               = evaluateOrbitalAmplitude ''f'' ''fz3'' dir"
    by (simp add: evaluateOrbitalAmplitude_def Let_def)
  from v show "buildNodalGroup family variant = Some [PlaneNode (Vector3 0 1 0)]"
    by (simp add: buildNodalGroup_def nodalChildren_def addPlanes_def createPlaneNode_def
          normalize_vec_axis)
qed

theorem unrecognized_pair_fallback_witness:
  "(''g'', ''gz4'') \<notin> set orbitalVariants \<and>
   evaluateOrbitalAmplitude ''g'' ''gz4'' (Vector3 1 0 0) = 1 \<and>
   buildNodalGroup ''g'' ''gz4'' = None \<and>
   (''f'', ''s'') \<notin> set orbitalVariants \<and>
   evaluateOrbitalAmplitude ''f'' ''s'' (Vector3 0 1 0) = 1 \<and>
   evaluateOrbitalAmplitude ''f'' ''s'' (Vector3 0 1 0)
     = evaluateOrbitalAmplitude ''f'' ''fz3'' (Vector3 0 1 0) \<and>
   buildNodalGroup ''f'' ''s'' = Some [PlaneNode (Vector3 0 1 0)]"
proof -
  have out: "(''g'', ''gz4'') \<notin> set orbitalVariants" "(''f'', ''s'') \<notin> set orbitalVariants"
    by (simp_all add: orbitalVariants_list)
  from unrecognized_pair_fallback [OF out(1), of "Vector3 1 0 0"]
  have g: "evaluateOrbitalAmplitude ''g'' ''gz4'' (Vector3 1 0 0) = 1"
    "buildNodalGroup ''g'' ''gz4'' = None"
    by simp_all
  from unrecognized_pair_fallback [OF out(2), of "Vector3 0 1 0"]
  have f: "evaluateOrbitalAmplitude ''f'' ''s'' (Vector3 0 1 0)
             = evaluateOrbitalAmplitude ''f'' ''fz3'' (Vector3 0 1 0)"
    "buildNodalGroup ''f'' ''s'' = Some [PlaneNode (Vector3 0 1 0)]"
    by simp_all
  from f(1) have "evaluateOrbitalAmplitude ''f'' ''s'' (Vector3 0 1 0) = 1"
    by (simp only: amplitude_fz3)
  with out g f show ?thesis
    by simp
qed

text \<open>
  Claim C9. For every enumerated (family, variant) pair and every unit direction, the
  amplitude lies between -1 and 1.
\<close>

theorem amplitude_in_unit_interval:
  assumes "(family, variant) \<in> set orbitalVariants" and "unitVector dir"
  shows "- 1 \<le> evaluateOrbitalAmplitude family variant dir \<and>
         evaluateOrbitalAmplitude family variant dir \<le> 1"
  using amplitude_bounded [OF assms(2), of family variant] by (simp add: abs_le_iff)

theorem amplitude_in_unit_interval_witness:
  "(''f'', ''fxz2'') \<in> set orbitalVariants \<and> unitVector (Vector3 1 0 0) \<and>
   evaluateOrbitalAmplitude ''f'' ''fxz2'' (Vector3 1 0 0) = - (1 / 2) \<and>
   - 1 \<le> evaluateOrbitalAmplitude ''f'' ''fxz2'' (Vector3 1 0 0) \<and>
   evaluateOrbitalAmplitude ''f'' ''fxz2'' (Vector3 1 0 0) \<le> 1"
proof -
  have hyps: "(''f'', ''fxz2'') \<in> set orbitalVariants" "unitVector (Vector3 1 0 0)"
    by (simp_all add: orbitalVariants_list unitVector_def)
  from amplitude_in_unit_interval [OF hyps] hyps amplitude_fxz2 show ?thesis
    by blast
qed

end
